theory Spec2Isabelle
  imports Main
begin

section \<open>JavaScript values used by PatternUtils\<close>

text \<open>
  Strings are \<^typ>\<open>string\<close>; \<open>length\<close> counts characters as JavaScript counts UTF-16
  code units, which agrees on ASCII paths. The values that can sit in a slot of the
  \<open>parenHistory\<close> array are a string, \<open>undefined\<close> (a hole, or the result of \<open>pop\<close>
  on an empty array) and \<open>NaN\<close> (what \<open>undefined + undefined\<close> evaluates to).
\<close>

datatype jsval = Undefined | NaN | Str string

fun toStr :: "jsval \<Rightarrow> string" where
  "toStr Undefined = ''undefined''"
| "toStr NaN = ''NaN''"
| "toStr (Str s) = s"

text \<open>The operator \<open>+\<close> of JavaScript on these values: concatenation as soon as one side
  is a string, numeric addition (here always \<open>NaN\<close>) otherwise.\<close>

fun jsplus :: "jsval \<Rightarrow> jsval \<Rightarrow> jsval" where
  "jsplus (Str a) b = Str (a @ toStr b)"
| "jsplus a (Str b) = Str (toStr a @ b)"
| "jsplus a b = NaN"

text \<open>\<open>s.charAt(k)\<close>: the one-character string at position \<open>k\<close>, the empty string when
  \<open>k\<close> is out of range (also for a negative \<open>k\<close>).\<close>

definition charAt :: "string \<Rightarrow> int \<Rightarrow> string" where
  "charAt s k = (if 0 \<le> k \<and> k < int (length s) then [s ! nat k] else [])"

text \<open>
  A JavaScript array: its \<open>length\<close> and its properties. The elements are the properties
  under the keys \<open>0 .. length - 1\<close>; a write under a negative key creates an ordinary
  property and leaves the length alone; a write at or beyond the length extends the array.
\<close>

record jsarray =
  alength :: nat
  aprops :: "int \<Rightarrow> jsval"

definition aempty :: jsarray where
  "aempty = \<lparr>alength = 0, aprops = (\<lambda>k. Undefined)\<rparr>"

definition aget :: "jsarray \<Rightarrow> int \<Rightarrow> jsval" where
  "aget a k = aprops a k"

definition aset :: "jsarray \<Rightarrow> int \<Rightarrow> jsval \<Rightarrow> jsarray" where
  "aset a k v =
     \<lparr>alength = (if int (alength a) \<le> k then nat k + 1 else alength a),
      aprops = (aprops a)(k := v)\<rparr>"

definition apop :: "jsarray \<Rightarrow> jsval \<times> jsarray" where
  "apop a =
     (if alength a = 0 then (Undefined, a)
      else (aprops a (int (alength a) - 1),
            \<lparr>alength = alength a - 1,
             aprops = (aprops a)(int (alength a) - 1 := Undefined)\<rparr>))"

section \<open>The external capabilities\<close>

text \<open>
  \<open>PatternUtils.js\<close> imports \<open>path-to-regexp\<close> and \<open>invariant\<close> and calls the built-in
  \<open>encodeURI\<close>, \<open>encodeURIComponent\<close> and \<open>decodeURIComponent\<close>. None of them is part of
  the module, so they are parameters of the model:
  \<^item> \<open>PathToRegexp_exec p x\<close> is \<open>x.match(PathToRegexp(p))\<close>: \<open>None\<close> for \<open>null\<close>, otherwise
    \<open>match[0]\<close> and the captures \<open>match.slice(1)\<close>, a capture of a group that took no part
    in the match being \<open>undefined\<close> (\<open>None\<close>);
  \<^item> \<open>PathToRegexp_keys p\<close> is \<open>PathToRegexp(p).keys.map(k => k.name)\<close>;
  \<^item> \<open>PathToRegexp_parse p\<close> is \<open>PathToRegexp.parse(p)\<close>, an array of strings and of
    objects with a \<open>name\<close>;
  \<^item> \<open>decodeURIComponent\<close> throws \<open>URIError\<close> on a malformed escape: \<open>None\<close>;
  \<^item> \<open>inherited k\<close> is \<open>({})[k]\<close>, the value a plain object without own properties gives
    for the key \<open>k\<close>: the properties of \<open>Object.prototype\<close>, and \<open>Object.prototype\<close>
    itself under \<open>__proto__\<close>.
\<close>

datatype parsed_token = Text string | Key string

text \<open>
  A params object is seen by \<open>formatPattern\<close> only through reads \<open>params[name]\<close> and
  \<open>params.splat\<close>, so it is modelled by what a read gives: \<open>None\<close> stands for \<open>undefined\<close>
  and \<open>null\<close>, which the code never tells apart (\<open>!= null\<close>, \<open>== null\<close>). A value is a
  string, an array (for \<open>splat\<close>), or any other value, such as the functions and objects
  that a read finds on \<open>Object.prototype\<close>; of such a value only its conversion to a
  string matters.
\<close>

datatype pval = PStr string | PArr "string option list" | POther string

type_synonym params = "string \<Rightarrow> pval option"

record externals =
  PathToRegexp_exec :: "string \<Rightarrow> string \<Rightarrow> (string \<times> string option list) option"
  PathToRegexp_keys :: "string \<Rightarrow> string list"
  PathToRegexp_parse :: "string \<Rightarrow> parsed_token list"
  encodeURI :: "string \<Rightarrow> string"
  encodeURIComponent :: "string \<Rightarrow> string"
  decodeURIComponent :: "string \<Rightarrow> string option"
  inherited :: "string \<Rightarrow> pval option"

text \<open>What \<open>invariant\<close> throws, with the arguments of its message, and the \<open>URIError\<close> of
  \<open>decodeURIComponent\<close>.\<close>

datatype error =
    MissingSplat nat string
  | MissingParameter string string
  | MissingEndParenAt string string
  | MissingEndParen string
  | URIError

section \<open>compilePattern and its cache\<close>

record compiled =
  pattern :: string
  regexp :: "string \<Rightarrow> (string \<times> string option list) option"
  paramNames :: "string list"
  tokens :: "string list"

fun flatten :: "parsed_token \<Rightarrow> string" where
  "flatten (Key name) = name"
| "flatten (Text token) = token"

definition priv_compilePattern :: "externals \<Rightarrow> string \<Rightarrow> compiled" where
  "priv_compilePattern ext pat =
     \<lparr>pattern = pat,
      regexp = PathToRegexp_exec ext pat,
      paramNames = PathToRegexp_keys ext pat,
      tokens = map flatten (PathToRegexp_parse ext pat)\<rparr>"

type_synonym cache = "string \<rightharpoonup> compiled"

definition compilePattern :: "externals \<Rightarrow> cache \<Rightarrow> string \<Rightarrow> compiled \<times> cache" where
  "compilePattern ext c pat =
     (case c pat of
        None \<Rightarrow> (let r = priv_compilePattern ext pat in (r, c(pat \<mapsto> r)))
      | Some r \<Rightarrow> (r, c))"

section \<open>matchPattern and getParams\<close>

record match_result =
  remainingPathname :: string
  paramNames :: "string list"
  paramValues :: "string option list"

text \<open>The callback \<open>v => v && decodeURIComponent(v)\<close>: \<open>undefined\<close> and the empty string
  are falsy and returned as they are.\<close>

definition decodeCapture :: "externals \<Rightarrow> string option \<Rightarrow> (error + string option)" where
  "decodeCapture ext v =
     (case v of
        None \<Rightarrow> Inr None
      | Some s \<Rightarrow>
          (if s = [] then Inr (Some [])
           else (case decodeURIComponent ext s of
                   None \<Rightarrow> Inl URIError
                 | Some d \<Rightarrow> Inr (Some d))))"

fun mapCaptures :: "externals \<Rightarrow> string option list \<Rightarrow> (error + string option list)" where
  "mapCaptures ext [] = Inr []"
| "mapCaptures ext (v # vs) =
     (case decodeCapture ext v of
        Inl e \<Rightarrow> Inl e
      | Inr d \<Rightarrow> (case mapCaptures ext vs of Inl e \<Rightarrow> Inl e | Inr ds \<Rightarrow> Inr (d # ds)))"

definition leadingSlash :: "string \<Rightarrow> string" where
  "leadingSlash pat = (if charAt pat 0 \<noteq> ''/'' then ''/'' @ pat else pat)"

definition matchPattern ::
  "externals \<Rightarrow> cache \<Rightarrow> string \<Rightarrow> string \<Rightarrow> (error + match_result option) \<times> cache" where
  "matchPattern ext c pat path =
     (let (cp, c') = compilePattern ext c (leadingSlash pat) in
      (case regexp cp path of
         None \<Rightarrow> (Inr None, c')
       | Some (matchedPath, captures) \<Rightarrow>
           (let rest = drop (length matchedPath) path in
            if rest \<noteq> [] \<and> charAt matchedPath (int (length matchedPath) - 1) \<noteq> ''/''
            then (Inr None, c')
            else (case mapCaptures ext captures of
                    Inl e \<Rightarrow> (Inl e, c')
                  | Inr vs \<Rightarrow>
                      (Inr (Some \<lparr>remainingPathname =
                                    (if rest \<noteq> [] then ''/'' @ rest else rest),
                                  paramNames = compiled.paramNames cp,
                                  paramValues = vs\<rparr>), c')))))"

text \<open>
  The object that \<open>getParams\<close> builds starts as \<open>{}\<close>: it has no own property and inherits
  from \<open>Object.prototype\<close>. \<open>ownProps\<close> are its own properties, \<open>Some None\<close> being an own
  property whose value is \<open>undefined\<close>.
  \<open>paramNames.forEach((paramName, index) => params[paramName] = paramValues[index])\<close>
  creates or overwrites an own property, reading past the end of \<open>paramValues\<close> giving
  \<open>undefined\<close>; under the name \<open>__proto__\<close> the assignment calls the setter of
  \<open>Object.prototype\<close>, which ignores a value that is a string or \<open>undefined\<close>, so that
  nothing is stored.
\<close>

type_synonym ownProps = "string \<Rightarrow> pval option option"


text \<open>\<open>obj[k]\<close> on that object: the own property when there is one, what a plain object
  inherits otherwise.\<close>

definition readProp :: "externals \<Rightarrow> ownProps \<Rightarrow> params" where
  "readProp ext own k = (case own k of Some v \<Rightarrow> v | None \<Rightarrow> inherited ext k)"


section \<open>formatPattern\<close>

record fstate =
  i :: nat
  parenCount :: int
  pathname :: string
  splatIndex :: nat
  parenHistory :: jsarray

definition initial :: fstate where
  "initial = \<lparr>i = 0, parenCount = 0, pathname = [], splatIndex = 0, parenHistory = aempty\<rparr>"

text \<open>\<open>xs.indexOf(x)\<close>, \<open>-1\<close> when \<open>x\<close> does not occur; the inner loop of \<open>formatPattern\<close>
  that looks for the first \<open>)\<close> of \<open>tokensSubset\<close> computes the same.\<close>

fun indexOfFrom :: "string list \<Rightarrow> string \<Rightarrow> nat \<Rightarrow> int" where
  "indexOfFrom [] x k = - 1"
| "indexOfFrom (y # ys) x k = (if y = x then int k else indexOfFrom ys x (k + 1))"

definition indexOf :: "string list \<Rightarrow> string \<Rightarrow> int" where
  "indexOf xs x = indexOfFrom xs x 0"

text \<open>\<open>xs.slice(start, xs.length)\<close>; a negative \<open>start\<close> counts from the end.\<close>

definition slice :: "string list \<Rightarrow> int \<Rightarrow> string list" where
  "slice xs start =
     (if start < 0 then drop (nat (int (length xs) + start)) xs else drop (nat start) xs)"

text \<open>\<open>String(v)\<close> of a params value, as \<open>encodeURIComponent\<close> applies it: an array is
  joined with commas, an \<open>undefined\<close> element contributing the empty string.\<close>

fun joinComma :: "string option list \<Rightarrow> string" where
  "joinComma [] = []"
| "joinComma [v] = (case v of None \<Rightarrow> [] | Some s \<Rightarrow> s)"
| "joinComma (v # vs) = (case v of None \<Rightarrow> [] | Some s \<Rightarrow> s) @ '','' @ joinComma vs"

fun pvalString :: "pval \<Rightarrow> string" where
  "pvalString (PStr s) = s"
| "pvalString (PArr vs) = joinComma vs"
| "pvalString (POther s) = s"

text \<open>The tokens \<open>'\\('\<close> and \<open>'\\)'\<close> of the source: a backslash and a parenthesis.\<close>

definition escapedOpen :: string where
  "escapedOpen = [CHR 0x5C, CHR ''('']"

definition escapedClose :: string where
  "escapedClose = [CHR 0x5C, CHR '')'']"

text \<open>
  \<open>params.splat\<close> resolved at a splat token:
  \<open>Array.isArray(params.splat) ? params.splat[splatIndex++] : params.splat\<close>.
  The result is the value, as the string that \<open>encodeURI\<close> makes of it, and the new
  \<open>splatIndex\<close>.
\<close>

definition resolveSplat :: "params \<Rightarrow> nat \<Rightarrow> string option \<times> nat" where
  "resolveSplat ps k =
     (case ps ''splat'' of
        Some (PArr vs) \<Rightarrow> ((if k < length vs then vs ! k else None), k + 1)
      | Some (PStr s) \<Rightarrow> (Some s, k)
      | Some (POther s) \<Rightarrow> (Some s, k)
      | None \<Rightarrow> (None, k))"

text \<open>
  The body of the \<open>for\<close> loop at the token \<open>tokens[i]\<close>. An \<open>invariant\<close> that fails is
  \<open>Inl\<close>: \<open>invariant(paramValue != null || parenCount > 0, ...)\<close> throws when the
  value is absent and \<open>parenCount > 0\<close> is false. The body may assign \<open>i\<close> (the jump to the ending paren); the \<open>++i\<close> of the loop
  header is applied by \<open>formatLoop\<close>.
\<close>

definition formatBody ::
  "externals \<Rightarrow> string \<Rightarrow> params \<Rightarrow> string list \<Rightarrow> fstate \<Rightarrow> error + fstate" where
  "formatBody ext pat ps toks st =
     (let token = toks ! i st; pc = parenCount st in
      if token = ''*'' \<or> token = ''**'' then
        (let (paramValue, k) = resolveSplat ps (splatIndex st) in
         if paramValue = None \<and> \<not> pc > 0 then Inl (MissingSplat k pat)
         else (case paramValue of
                 None \<Rightarrow> Inr (st\<lparr>splatIndex := k\<rparr>)
               | Some v \<Rightarrow> Inr (st\<lparr>splatIndex := k, pathname := pathname st @ encodeURI ext v\<rparr>)))
      else if token = ''('' then
        Inr (st\<lparr>parenHistory := aset (parenHistory st) pc (Str []), parenCount := pc + 1\<rparr>)
      else if token = '')'' then
        (let (parenText, h) = apop (parenHistory st); pc' = pc - 1 in
         if pc' \<noteq> 0 then
           Inr (st\<lparr>parenHistory := aset h (pc' - 1) (jsplus (aget h (pc' - 1)) parenText),
                   parenCount := pc'\<rparr>)
         else
           Inr (st\<lparr>parenHistory := h, parenCount := pc',
                   pathname := pathname st @ toStr parenText\<rparr>))
      else if token = escapedOpen then Inr (st\<lparr>pathname := pathname st @ ''(''\<rparr>)
      else if token = escapedClose then Inr (st\<lparr>pathname := pathname st @ '')''\<rparr>)
      else if charAt token 0 = '':'' then
        (let paramName = drop 1 token; paramValue = ps paramName in
         if paramValue = None \<and> \<not> pc > 0 then Inl (MissingParameter paramName pat)
         else (case paramValue of
                 None \<Rightarrow>
                   (if pc \<noteq> 0 then
                      (let h = aset (parenHistory st) (pc - 1) (Str []);
                           curTokenIdx = indexOf toks token;
                           tokensSubset = slice toks curTokenIdx;
                           nextParenIdx = indexOf tokensSubset '')''
                       in if \<not> nextParenIdx > 0
                          then Inl (MissingEndParenAt pat (concat tokensSubset))
                          else Inr (st\<lparr>parenHistory := h,
                                       i := nat (curTokenIdx + nextParenIdx - 1)\<rparr>))
                    else Inr st)
               | Some v \<Rightarrow>
                   (if pc \<noteq> 0 then
                      Inr (st\<lparr>parenHistory :=
                                aset (parenHistory st) (pc - 1)
                                  (jsplus (aget (parenHistory st) (pc - 1))
                                     (Str (encodeURIComponent ext (pvalString v))))\<rparr>)
                    else
                      Inr (st\<lparr>pathname :=
                                pathname st @ encodeURIComponent ext (pvalString v)\<rparr>))))
      else
        (if pc \<noteq> 0 then
           Inr (st\<lparr>parenHistory :=
                     aset (parenHistory st) (pc - 1)
                       (jsplus (aget (parenHistory st) (pc - 1)) (Str token))\<rparr>)
         else Inr (st\<lparr>pathname := pathname st @ token\<rparr>)))"

text \<open>
  The \<open>for\<close> loop. The jump may go backwards (\<open>indexOf\<close> finds the first occurrence of
  the token, which need not be the current one), so the loop need not terminate:
  \<open>None\<close> is a run that never leaves the loop.
\<close>

partial_function (option) formatLoop ::
  "externals \<Rightarrow> string \<Rightarrow> params \<Rightarrow> string list \<Rightarrow> fstate \<Rightarrow> (error + fstate) option" where
  "formatLoop ext pat ps toks st =
     (if i st < length toks then
        (case formatBody ext pat ps toks st of
           Inl e \<Rightarrow> Some (Inl e)
         | Inr st' \<Rightarrow> formatLoop ext pat ps toks (st'\<lparr>i := i st' + 1\<rparr>))
      else Some (Inr st))"

text \<open>\<open>pathname.replace(/\/+/g, '/')\<close>: every run of slashes becomes one slash.\<close>

fun collapseSlashes :: "string \<Rightarrow> string" where
  "collapseSlashes (a # b # s) =
     (if a = CHR ''/'' \<and> b = CHR ''/'' then collapseSlashes (b # s)
      else a # collapseSlashes (b # s))"
| "collapseSlashes s = s"

text \<open>\<open>params = params || {}\<close>: without params the reads go to a plain object that has
  no own property. An object is never falsy, so given params are used as they are.\<close>

definition formatPattern ::
  "externals \<Rightarrow> cache \<Rightarrow> string \<Rightarrow> params option \<Rightarrow> ((error + string) \<times> cache) option" where
  "formatPattern ext c pat params0 =
     (let ps = (case params0 of None \<Rightarrow> readProp ext (\<lambda>k. None) | Some m \<Rightarrow> m);
          (cp, c') = compilePattern ext c pat
      in (case formatLoop ext pat ps (tokens cp) initial of
            None \<Rightarrow> None
          | Some (Inl e) \<Rightarrow> Some (Inl e, c')
          | Some (Inr st) \<Rightarrow>
              (if \<not> parenCount st \<le> 0 then Some (Inl (MissingEndParen pat), c')
               else Some (Inr (collapseSlashes (pathname st)), c'))))"

section \<open>Concrete capabilities for the examples\<close>

text \<open>
  Two concrete choices of the external capabilities, on which the definitions above are
  run. \<open>literalExt\<close> serves patterns of literal text: the automaton of \<open>p\<close> matches the
  paths that begin with \<open>p\<close>, there are no keys, and \<open>p\<close> parses into one text token.
  \<open>stubExt rx names toks\<close> fixes the automaton, the key names and the tokens of every
  pattern. Both escape and unescape nothing, as the built-ins do on letters and digits.
  \<open>plainObject\<close> is what a plain object inherits: \<open>Object.prototype\<close> itself under
  \<open>__proto__\<close>, and the built-in functions, with their usual conversion to a string.
\<close>

definition plainObject :: "string \<Rightarrow> pval option" where
  "plainObject k =
     (if k = ''__proto__'' then Some (POther ''[object Object]'')
      else if k = ''constructor'' then Some (POther ''function Object() { [native code] }'')
      else if k \<in> set [''hasOwnProperty'', ''isPrototypeOf'', ''propertyIsEnumerable'',
                        ''toLocaleString'', ''toString'', ''valueOf'', ''__defineGetter__'',
                        ''__defineSetter__'', ''__lookupGetter__'', ''__lookupSetter__'']
      then Some (POther (''function '' @ k @ ''() { [native code] }''))
      else None)"

definition literalExt :: externals where
  "literalExt =
     \<lparr>PathToRegexp_exec = (\<lambda>p x. if take (length p) x = p then Some (p, []) else None),
      PathToRegexp_keys = (\<lambda>p. []),
      PathToRegexp_parse = (\<lambda>p. [Text p]),
      encodeURI = (\<lambda>s. s),
      encodeURIComponent = (\<lambda>s. s),
      decodeURIComponent = Some,
      inherited = plainObject\<rparr>"

definition stubExt ::
  "(string \<Rightarrow> (string \<times> string option list) option) \<Rightarrow> string list \<Rightarrow> string list \<Rightarrow> externals"
where
  "stubExt rx names toks =
     \<lparr>PathToRegexp_exec = (\<lambda>p. rx),
      PathToRegexp_keys = (\<lambda>p. names),
      PathToRegexp_parse = (\<lambda>p. map Text toks),
      encodeURI = (\<lambda>s. s),
      encodeURIComponent = (\<lambda>s. s),
      decodeURIComponent = Some,
      inherited = plainObject\<rparr>"

text \<open>The automaton of \<open>/files/*\<close>: a path that begins with \<open>/files/\<close> matches as a whole
  and its rest is the one capture.\<close>

definition filesSplat :: "string \<Rightarrow> (string \<times> string option list) option" where
  "filesSplat x = (if take 7 x = ''/files/'' then Some (x, [Some (drop 7 x)]) else None)"

text \<open>How a capture and the value returned for it are related by
  \<open>v => v && decodeURIComponent(v)\<close>: an absent capture stays absent, an empty capture
  stays the empty string, any other capture is decoded.\<close>

definition passedThrough :: "externals \<Rightarrow> string option \<Rightarrow> string option \<Rightarrow> bool" where
  "passedThrough ext capture v =
     (case capture of
        None \<Rightarrow> v = None
      | Some s \<Rightarrow> (if s = [] then v = Some [] else v \<noteq> None \<and> decodeURIComponent ext s = v))"

text \<open>An automaton with three capturing groups that matches the single path
  \<open>/x/a%20b/\<close>: the first group captures \<open>a%20b\<close>, the second takes no part in the
  match, the third captures the empty string. With it, a decoder that knows one escape.\<close>

definition threeCaptures :: "string \<Rightarrow> (string \<times> string option list) option" where
  "threeCaptures x =
     (if x = ''/x/a%20b/'' then Some (x, [Some ''a%20b'', None, Some []]) else None)"

definition pctExt :: externals where
  "pctExt =
     (stubExt threeCaptures [''p'', ''q'', ''splat''] [])
       \<lparr>decodeURIComponent := (\<lambda>s. if s = ''a%20b'' then Some ''a b'' else Some s)\<rparr>"

text \<open>
  The close token that matches the group open at a position, in the words of the
  specification: scanning forward, a \<open>(\<close> opens a nested group, a \<open>)\<close> closes the
  innermost open one, and the \<open>)\<close> met at nesting \<open>0\<close> is the one looked for.
  \<open>findMatchingClose ts d k\<close> scans \<open>ts\<close>, whose first token has index \<open>k\<close>, at nesting \<open>d\<close>.
\<close>

fun findMatchingClose :: "string list \<Rightarrow> nat \<Rightarrow> nat \<Rightarrow> nat option" where
  "findMatchingClose [] d k = None"
| "findMatchingClose (t # ts) d k =
     (if t = ''('' then findMatchingClose ts (d + 1) (k + 1)
      else if t = '')'' then (if d = 0 then Some k else findMatchingClose ts (d - 1) (k + 1))
      else findMatchingClose ts d (k + 1))"

text \<open>A params object with one own property.\<close>

definition oneParam :: "string \<Rightarrow> pval \<Rightarrow> params" where
  "oneParam name v = (\<lambda>k. if k = name then Some v else None)"

section \<open>The round trip through getParams and formatPattern\<close>


section \<open>Token sequences and what they stand for\<close>

text \<open>
  The kinds of token that the loop of \<open>formatPattern\<close> tells apart: a splat, a group
  boundary, an escaped paren, a named parameter (a first character \<open>:\<close>), and text. A
  key token is one that takes a value from the params: a splat or a named parameter; it
  reads \<open>params.splat\<close>, or \<open>params[name]\<close> for the token without its first character.
\<close>

definition splatToken :: "string \<Rightarrow> bool" where
  "splatToken t = (t = ''*'' \<or> t = ''**'')"

definition groupToken :: "string \<Rightarrow> bool" where
  "groupToken t = (t = ''('' \<or> t = '')'')"

definition paramToken :: "string \<Rightarrow> bool" where
  "paramToken t = (charAt t 0 = '':'')"

definition keyToken :: "string \<Rightarrow> bool" where
  "keyToken t = (splatToken t \<or> paramToken t)"

definition plainText :: "string \<Rightarrow> bool" where
  "plainText t = (\<not> keyToken t \<and> \<not> groupToken t \<and> t \<noteq> escapedOpen \<and> t \<noteq> escapedClose)"




text \<open>
  The formatter of the specification on tokens outside every optional group, read off
  its description token by token: a splat takes the next value of \<open>params.splat\<close> (or
  the scalar) and fails when there is none, an escaped paren is written as the paren, a
  named parameter is looked up and fails when absent, text is written as it is.
  \<open>flatRun\<close> takes the splat index and the output so far and returns both; it is meant
  for token sequences without group boundaries.
\<close>

fun flatRun ::
  "externals \<Rightarrow> string \<Rightarrow> params \<Rightarrow> string list \<Rightarrow> nat \<Rightarrow> string \<Rightarrow> error + nat \<times> string" where
  "flatRun ext pat ps [] k out = Inr (k, out)"
| "flatRun ext pat ps (t # ts) k out =
     (if splatToken t then
        (case resolveSplat ps k of
           (None, k') \<Rightarrow> Inl (MissingSplat k' pat)
         | (Some v, k') \<Rightarrow> flatRun ext pat ps ts k' (out @ encodeURI ext v))
      else if t = escapedOpen then flatRun ext pat ps ts k (out @ ''('')
      else if t = escapedClose then flatRun ext pat ps ts k (out @ '')'')
      else if paramToken t then
        (case ps (drop 1 t) of
           None \<Rightarrow> Inl (MissingParameter (drop 1 t) pat)
         | Some v \<Rightarrow> flatRun ext pat ps ts k (out @ encodeURIComponent ext (pvalString v)))
      else flatRun ext pat ps ts k (out @ t))"












section \<open>A run that does not end\<close>

text \<open>
  The tokens of a pattern such as \<open>(:a)(:a)\<close>, in which a named parameter occurs in two
  optional groups, and the three states that the loop keeps passing through when \<open>a\<close> has
  no value: the jump of the second \<open>:a\<close> starts from the first one.
\<close>

definition loopTokens :: "string list" where
  "loopTokens = [''('', '':a'', '')'', ''('', '':a'', '')'']"

definition cycleState :: "fstate \<Rightarrow> bool" where
  "cycleState st =
     (pathname st = [] \<and>
      (i st = 2 \<and> parenCount st = 1 \<and> parenHistory st = aset aempty 0 (Str [])
       \<or> i st = 3 \<and> parenCount st = 0 \<and> parenHistory st = aempty
       \<or> i st = 4 \<and> parenCount st = 1 \<and> parenHistory st = aset aempty 0 (Str [])))"

section \<open>Properties of compilePattern\<close>

text \<open>
  C9. \<open>compilePattern\<close> is idempotent: a second call on the same pattern string, made on
  the cache the first call left, returns the entry the first call stored (the same
  compiled pattern, so the same \<open>paramNames\<close> and \<open>tokens\<close>) and leaves the cache as it is.
  Determinism is the fact that \<open>compilePattern\<close> is a function of the capabilities, the
  cache and the pattern.
\<close>

theorem compilePattern_idempotent:
  "(let (r1, c1) = compilePattern ext c pat;
        (r2, c2) = compilePattern ext c1 pat
    in r2 = r1 \<and> c2 = c1 \<and> c1 pat = Some r1
       \<and> compiled.paramNames r2 = compiled.paramNames r1 \<and> tokens r2 = tokens r1)"
  by (simp add: compilePattern_def Let_def split: option.split)

section \<open>Properties of matchPattern\<close>

lemma charAt_last:
  "charAt s (int (length s) - 1) = ''/'' \<longleftrightarrow> (\<exists>m. s = m @ ''/'')"
proof (cases s rule: rev_cases)
  case Nil
  then show ?thesis by (simp add: charAt_def)
next
  case (snoc m a)
  then show ?thesis by (auto simp: charAt_def nth_append)
qed

lemma matchPattern_cases:
  assumes "regexp (fst (compilePattern ext c (leadingSlash pat))) path = Some (matchedPath, captures)"
  shows "fst (matchPattern ext c pat path) =
           (let rest = drop (length matchedPath) path in
            if rest \<noteq> [] \<and> charAt matchedPath (int (length matchedPath) - 1) \<noteq> ''/''
            then Inr None
            else (case mapCaptures ext captures of
                    Inl e \<Rightarrow> Inl e
                  | Inr vs \<Rightarrow>
                      Inr (Some \<lparr>remainingPathname = (if rest \<noteq> [] then ''/'' @ rest else rest),
                                 paramNames = compiled.paramNames
                                   (fst (compilePattern ext c (leadingSlash pat))),
                                 paramValues = vs\<rparr>)))"
  using assms
  by (cases "compilePattern ext c (leadingSlash pat)")
     (simp add: matchPattern_def Let_def split: sum.split)

lemma matchPattern_nomatch:
  assumes "regexp (fst (compilePattern ext c (leadingSlash pat))) path = None"
  shows "fst (matchPattern ext c pat path) = Inr None"
  using assms
  by (cases "compilePattern ext c (leadingSlash pat)") (simp add: matchPattern_def)

text \<open>
  C4. When the automaton matches a proper prefix of the pathname (\<open>path\<close> is
  \<open>matchedPath\<close> followed by a non-empty rest) and the matched prefix does not end with
  the path separator, \<open>matchPattern\<close> returns \<open>null\<close>. The instance of the claim,
  \<open>matchPattern('/users', '/users42')\<close>, is the witness below.
\<close>

theorem matchPattern_boundary:
  assumes "regexp (fst (compilePattern ext c (leadingSlash pat))) path = Some (matchedPath, captures)"
    and "path = matchedPath @ rest"
    and "rest \<noteq> []"
    and "\<forall>m. matchedPath \<noteq> m @ ''/''"
  shows "fst (matchPattern ext c pat path) = Inr None"
proof -
  have "charAt matchedPath (int (length matchedPath) - 1) \<noteq> ''/''"
    using assms(4) charAt_last [of matchedPath] by blast
  moreover have "drop (length matchedPath) path \<noteq> []"
    using assms(2,3) by simp
  ultimately show ?thesis
    using matchPattern_cases [OF assms(1)] by (simp add: Let_def)
qed

lemmas run_match =
  matchPattern_def compilePattern_def priv_compilePattern_def leadingSlash_def charAt_def
  literalExt_def stubExt_def decodeCapture_def Let_def

theorem matchPattern_boundary_witness:
  "regexp (fst (compilePattern literalExt Map.empty (leadingSlash ''/users''))) ''/users42''
     = Some (''/users'', [])
   \<and> ''/users42'' = ''/users'' @ ''42''
   \<and> fst (matchPattern literalExt Map.empty ''/users'' ''/users42'') = Inr None"
proof -
  have h1: "regexp (fst (compilePattern literalExt Map.empty (leadingSlash ''/users''))) ''/users42''
              = Some (''/users'', [])"
    by (simp add: run_match)
  have h2: "''/users42'' = ''/users'' @ ''42''" by simp
  have h3: "''42'' \<noteq> []" by simp
  have h4: "\<forall>m. ''/users'' \<noteq> m @ ''/''" by (simp add: Cons_eq_append_conv)
  show ?thesis
    by (intro conjI h1 h2 matchPattern_boundary [OF h1 h2 h3 h4])
qed

text \<open>The same call returns \<open>null\<close> under every automaton that either does not match
  \<open>/users42\<close> at all or matches its prefix \<open>/users\<close>.\<close>

lemma matchPattern_users42:
  assumes "regexp (fst (compilePattern ext c ''/users'')) ''/users42'' = None
           \<or> (\<exists>captures. regexp (fst (compilePattern ext c ''/users'')) ''/users42''
                 = Some (''/users'', captures))"
  shows "fst (matchPattern ext c ''/users'' ''/users42'') = Inr None"
proof -
  have ls: "leadingSlash ''/users'' = ''/users''"
    by (simp add: leadingSlash_def charAt_def)
  from assms show ?thesis
  proof
    assume "regexp (fst (compilePattern ext c ''/users'')) ''/users42'' = None"
    then show ?thesis using matchPattern_nomatch [of ext c "''/users''" "''/users42''"] ls by simp
  next
    assume "\<exists>captures. regexp (fst (compilePattern ext c ''/users'')) ''/users42''
              = Some (''/users'', captures)"
    then obtain captures where
      "regexp (fst (compilePattern ext c ''/users'')) ''/users42'' = Some (''/users'', captures)"
      by blast
    then show ?thesis
      using matchPattern_cases [of ext c "''/users''" "''/users42''" "''/users''" captures] ls
      by (simp add: Let_def charAt_def)
  qed
qed

text \<open>
  C5. Whenever \<open>matchPattern\<close> returns a match result, its \<open>remainingPathname\<close> is the
  empty string or begins with the path separator.
\<close>

theorem matchPattern_remainingPathname:
  assumes "fst (matchPattern ext c pat path) = Inr (Some m)"
  shows "remainingPathname m = [] \<or> charAt (remainingPathname m) 0 = ''/''"
proof (cases "regexp (fst (compilePattern ext c (leadingSlash pat))) path")
  case None
  then show ?thesis using assms matchPattern_nomatch [of ext c pat path] by simp
next
  case (Some mc)
  obtain matchedPath captures where mc: "mc = (matchedPath, captures)" by (cases mc)
  show ?thesis
    using assms matchPattern_cases [of ext c pat path matchedPath captures] Some mc
    by (auto simp: Let_def charAt_def split: if_splits sum.splits)
qed

theorem matchPattern_remainingPathname_witness:
  "fst (matchPattern literalExt Map.empty ''/users/'' ''/users/42'')
     = Inr (Some \<lparr>remainingPathname = ''/42'', paramNames = [], paramValues = []\<rparr>)
   \<and> (remainingPathname \<lparr>remainingPathname = ''/42'', paramNames = [], paramValues = []\<rparr> = []
        \<or> charAt (remainingPathname
              \<lparr>remainingPathname = ''/42'', paramNames = [], paramValues = []\<rparr>) 0 = ''/'')"
proof -
  have h: "fst (matchPattern literalExt Map.empty ''/users/'' ''/users/42'')
             = Inr (Some \<lparr>remainingPathname = ''/42'', paramNames = [], paramValues = []\<rparr>)"
    by (simp add: run_match)
  show ?thesis
    by (intro conjI h matchPattern_remainingPathname [OF h])
qed

lemma decodeCapture_passedThrough:
  assumes "decodeCapture ext v = Inr d"
  shows "passedThrough ext v d"
  using assms
  by (cases v; cases d; cases "decodeURIComponent ext (the v)")
     (auto simp: decodeCapture_def passedThrough_def split: if_splits)

lemma mapCaptures_passedThrough:
  "mapCaptures ext captures = Inr vs \<Longrightarrow> list_all2 (passedThrough ext) captures vs"
proof (induction captures arbitrary: vs)
  case Nil
  then show ?case by simp
next
  case (Cons v captures)
  from Cons.prems obtain d ds where
    d: "decodeCapture ext v = Inr d" and ds: "mapCaptures ext captures = Inr ds"
    and vs: "vs = d # ds"
    by (auto split: sum.splits)
  show ?case
    using decodeCapture_passedThrough [OF d] Cons.IH [OF ds] vs by simp
qed

text \<open>
  C6 (as the code has it). On a successful match the returned \<open>paramValues\<close> are the
  captures of the automaton, one for one and in order: an absent capture is returned as
  absent, an empty capture as the empty string, and every other capture percent-decoded.
\<close>

theorem matchPattern_paramValues:
  assumes "fst (matchPattern ext c pat path) = Inr (Some m)"
    and "regexp (fst (compilePattern ext c (leadingSlash pat))) path = Some (matchedPath, captures)"
  shows "list_all2 (passedThrough ext) captures (paramValues m)"
proof -
  from assms(1) matchPattern_cases [OF assms(2)]
  obtain vs where "mapCaptures ext captures = Inr vs" and "paramValues m = vs"
    by (auto simp: Let_def split: if_splits sum.splits)
  then show ?thesis using mapCaptures_passedThrough by blast
qed

theorem matchPattern_paramValues_witness:
  "fst (matchPattern pctExt Map.empty ''/x/:p(/:q)/*'' ''/x/a%20b/'')
     = Inr (Some \<lparr>remainingPathname = [], paramNames = [''p'', ''q'', ''splat''],
                  paramValues = [Some ''a b'', None, Some []]\<rparr>)
   \<and> regexp (fst (compilePattern pctExt Map.empty (leadingSlash ''/x/:p(/:q)/*''))) ''/x/a%20b/''
       = Some (''/x/a%20b/'', [Some ''a%20b'', None, Some []])
   \<and> list_all2 (passedThrough pctExt) [Some ''a%20b'', None, Some []]
        (paramValues \<lparr>remainingPathname = [], paramNames = [''p'', ''q'', ''splat''],
                  paramValues = [Some ''a b'', None, Some []]\<rparr>)"
proof -
  have h1: "fst (matchPattern pctExt Map.empty ''/x/:p(/:q)/*'' ''/x/a%20b/'')
     = Inr (Some \<lparr>remainingPathname = [], paramNames = [''p'', ''q'', ''splat''],
                  paramValues = [Some ''a b'', None, Some []]\<rparr>)"
    by (simp add: run_match pctExt_def threeCaptures_def)
  have h2: "regexp (fst (compilePattern pctExt Map.empty (leadingSlash ''/x/:p(/:q)/*''))) ''/x/a%20b/''
       = Some (''/x/a%20b/'', [Some ''a%20b'', None, Some []])"
    by (simp add: run_match pctExt_def threeCaptures_def)
  show ?thesis
    by (intro conjI h1 h2 matchPattern_paramValues [OF h1 h2])
qed

text \<open>
  C6 as stated does not hold for an empty capture: \<open>'' && decodeURIComponent('')\<close> is
  \<open>''\<close>, so the empty capture of \<open>/files/*\<close> on \<open>/files/\<close> comes back as the empty
  string, not as absent.
\<close>

theorem matchPattern_empty_capture_counterexample:
  "filesSplat ''/files/'' = Some (''/files/'', [Some []])
   \<and> fst (matchPattern (stubExt filesSplat [''splat''] []) Map.empty ''/files/*'' ''/files/'')
       = Inr (Some \<lparr>remainingPathname = [], paramNames = [''splat''], paramValues = [Some []]\<rparr>)"
  by (simp add: run_match filesSplat_def)

section \<open>Properties of the loop body of formatPattern\<close>

lemmas run_format =
  formatPattern_def compilePattern_def priv_compilePattern_def stubExt_def literalExt_def
  initial_def formatLoop.simps formatBody_def aset_def aget_def apop_def aempty_def charAt_def
  resolveSplat_def escapedOpen_def escapedClose_def indexOf_def slice_def oneParam_def Let_def
  readProp_def plainObject_def

lemma colon_token:
  assumes "charAt t 0 = '':''"
  shows "t \<noteq> ''*''" "t \<noteq> ''**''" "t \<noteq> ''(''" "t \<noteq> '')''" "t \<noteq> escapedOpen" "t \<noteq> escapedClose"
  using assms by (auto simp: charAt_def escapedOpen_def escapedClose_def)

lemma body_at_splat:
  assumes "toks ! i st = ''*'' \<or> toks ! i st = ''**''"
  shows "formatBody ext pat ps toks st =
     (let (paramValue, k) = resolveSplat ps (splatIndex st) in
         if paramValue = None \<and> \<not> parenCount st > 0 then Inl (MissingSplat k pat)
         else (case paramValue of
                 None \<Rightarrow> Inr (st\<lparr>splatIndex := k\<rparr>)
               | Some v \<Rightarrow> Inr (st\<lparr>splatIndex := k, pathname := pathname st @ encodeURI ext v\<rparr>)))"
  using assms by (auto simp: formatBody_def Let_def)

lemma formatBody_named_eq:
  assumes "charAt (toks ! i st) 0 = '':''"
  shows "formatBody ext pat ps toks st =
        (let token = toks ! i st; pc = parenCount st; paramName = drop 1 token; paramValue = ps paramName in
         if paramValue = None \<and> \<not> pc > 0 then Inl (MissingParameter paramName pat)
         else (case paramValue of
                 None \<Rightarrow>
                   (if pc \<noteq> 0 then
                      (let h = aset (parenHistory st) (pc - 1) (Str []);
                           curTokenIdx = indexOf toks token;
                           tokensSubset = slice toks curTokenIdx;
                           nextParenIdx = indexOf tokensSubset '')''
                       in if \<not> nextParenIdx > 0
                          then Inl (MissingEndParenAt pat (concat tokensSubset))
                          else Inr (st\<lparr>parenHistory := h,
                                       i := nat (curTokenIdx + nextParenIdx - 1)\<rparr>))
                    else Inr st)
               | Some v \<Rightarrow>
                   (if pc \<noteq> 0 then
                      Inr (st\<lparr>parenHistory :=
                                aset (parenHistory st) (pc - 1)
                                  (jsplus (aget (parenHistory st) (pc - 1))
                                     (Str (encodeURIComponent ext (pvalString v))))\<rparr>)
                    else
                      Inr (st\<lparr>pathname :=
                                pathname st @ encodeURIComponent ext (pvalString v)\<rparr>))))"
  using colon_token [OF assms] assms by (simp add: formatBody_def Let_def)

section \<open>Elision of an optional group\<close>

lemma indexOfFrom_first:
  "j < length xs \<Longrightarrow> xs ! j = x \<Longrightarrow> x \<notin> set (take j xs) \<Longrightarrow> indexOfFrom xs x k = int (k + j)"
proof (induction xs arbitrary: j k)
  case Nil
  then show ?case by simp
next
  case (Cons y ys)
  show ?case
  proof (cases j)
    case 0
    with Cons.prems show ?thesis by simp
  next
    case (Suc j')
    with Cons.prems have "y \<noteq> x" "j' < length ys" "ys ! j' = x" "x \<notin> set (take j' ys)"
      by auto
    with Cons.IH [of j' "k + 1"] Suc show ?thesis by simp
  qed
qed

lemma indexOfFrom_none: "x \<notin> set xs \<Longrightarrow> indexOfFrom xs x k = - 1"
  by (induction xs arbitrary: k) auto

lemma slice_nat: "slice xs (int n) = drop n xs"
  by (simp add: slice_def)

lemma formatBody_elide:
  assumes lt: "i st < length toks"
    and colon: "charAt (toks ! i st) 0 = '':''"
    and absent: "ps (drop 1 (toks ! i st)) = None"
    and depth: "parenCount st > 0"
    and first: "toks ! i st \<notin> set (take (i st) toks)"
  shows "formatBody ext pat ps toks st =
           (let nextParenIdx = indexOf (drop (i st) toks) '')'' in
            if \<not> nextParenIdx > 0 then Inl (MissingEndParenAt pat (concat (drop (i st) toks)))
            else Inr (st\<lparr>parenHistory := aset (parenHistory st) (parenCount st - 1) (Str []),
                         i := nat (int (i st) + nextParenIdx - 1)\<rparr>))"
proof -
  have cur: "indexOf toks (toks ! i st) = int (i st)"
    using indexOfFrom_first [OF lt refl first, of 0] by (simp add: indexOf_def)
  show ?thesis
    unfolding formatBody_named_eq [OF colon]
    using absent depth by (simp add: Let_def cur slice_nat)
qed

text \<open>
  C2 (as the code has it). When the loop reaches a named-param token whose value is
  absent, at an open-paren depth greater than 0, and this token does not occur earlier in
  the token sequence, then the buffer of the current group (\<open>parenHistory[parenCount - 1]\<close>)
  is set to the empty string and the loop goes on at the first \<open>)\<close> token after the
  current position, whatever the nesting of that token, without processing the tokens in
  between; when no \<open>)\<close> follows, the loop fails with the missing-end-paren error.
\<close>

theorem formatLoop_elision:
  assumes lt: "i st < length toks"
    and colon: "charAt (toks ! i st) 0 = '':''"
    and absent: "ps (drop 1 (toks ! i st)) = None"
    and depth: "parenCount st > 0"
    and first: "toks ! i st \<notin> set (take (i st) toks)"
  shows "(\<forall>j. i st < j \<and> j < length toks \<and> toks ! j = '')''
              \<and> (\<forall>k. i st < k \<and> k < j \<longrightarrow> toks ! k \<noteq> '')'') \<longrightarrow>
            formatLoop ext pat ps toks st =
              formatLoop ext pat ps toks
                (st\<lparr>parenHistory := aset (parenHistory st) (parenCount st - 1) (Str []),
                    i := j\<rparr>))
       \<and> ((\<forall>k. i st < k \<and> k < length toks \<longrightarrow> toks ! k \<noteq> '')'') \<longrightarrow>
            formatLoop ext pat ps toks st =
              Some (Inl (MissingEndParenAt pat (concat (drop (i st) toks)))))"
proof (intro conjI allI impI)
  fix j
  assume j: "i st < j \<and> j < length toks \<and> toks ! j = '')''
              \<and> (\<forall>k. i st < k \<and> k < j \<longrightarrow> toks ! k \<noteq> '')'')"
  then have jgt: "i st < j" and jlen: "j < length toks" and jtok: "toks ! j = '')''"
    and before: "\<And>k. i st < k \<Longrightarrow> k < j \<Longrightarrow> toks ! k \<noteq> '')''"
    by simp_all
  have tok: "toks ! i st \<noteq> '')''" using colon_token(4) [OF colon] .
  have notin: "'')'' \<notin> set (take (j - i st) (drop (i st) toks))"
  proof
    assume "'')'' \<in> set (take (j - i st) (drop (i st) toks))"
    then obtain n where n: "n < length (take (j - i st) (drop (i st) toks))"
      and eq: "take (j - i st) (drop (i st) toks) ! n = '')''"
      by (auto simp: in_set_conv_nth)
    from n have n': "n < j - i st" by simp
    with eq jlen have at: "toks ! (i st + n) = '')''" by simp
    show False
    proof (cases n)
      case 0
      with at tok show False by simp
    next
      case (Suc m)
      with n' have "i st < i st + n" "i st + n < j" by simp_all
      from before [OF this] at show False by simp
    qed
  qed
  have "indexOf (drop (i st) toks) '')'' = int (j - i st)"
    using indexOfFrom_first [of "j - i st" "drop (i st) toks" "'')''" 0] jgt jlen jtok notin
    by (simp add: indexOf_def)
  then have body: "formatBody ext pat ps toks st =
      Inr (st\<lparr>parenHistory := aset (parenHistory st) (parenCount st - 1) (Str []),
              i := j - 1\<rparr>)"
    using formatBody_elide [where ps = ps and ext = ext and pat = pat, OF lt colon absent depth first] jgt
    by (simp add: Let_def nat_diff_distrib')
  show "formatLoop ext pat ps toks st =
          formatLoop ext pat ps toks
            (st\<lparr>parenHistory := aset (parenHistory st) (parenCount st - 1) (Str []), i := j\<rparr>)"
    using lt jgt by (subst formatLoop.simps) (simp add: body)
next
  assume none: "\<forall>k. i st < k \<and> k < length toks \<longrightarrow> toks ! k \<noteq> '')''"
  have tok: "toks ! i st \<noteq> '')''" using colon_token(4) [OF colon] .
  have "'')'' \<notin> set (drop (i st) toks)"
  proof
    assume "'')'' \<in> set (drop (i st) toks)"
    then obtain n where n: "n < length toks - i st" and eq: "toks ! (i st + n) = '')''"
      by (auto simp: in_set_conv_nth)
    show False
    proof (cases n)
      case 0
      with eq tok show False by simp
    next
      case (Suc m)
      with n have "i st < i st + n \<and> i st + n < length toks" by simp
      with none eq show False by blast
    qed
  qed
  then have "indexOf (drop (i st) toks) '')'' = - 1"
    by (simp add: indexOf_def indexOfFrom_none)
  then have body: "formatBody ext pat ps toks st =
      Inl (MissingEndParenAt pat (concat (drop (i st) toks)))"
    using formatBody_elide [where ps = ps and ext = ext and pat = pat, OF lt colon absent depth first] by (simp add: Let_def)
  show "formatLoop ext pat ps toks st =
          Some (Inl (MissingEndParenAt pat (concat (drop (i st) toks))))"
    using lt by (subst formatLoop.simps) (simp add: body)
qed


theorem formatLoop_elision_witness:
  "i (\<lparr>i = 4, parenCount = 1, pathname = ''/users/1'', splatIndex = 0,
        parenHistory = aset aempty 0 (Str ''/'')\<rparr>)
     < length [''/users/'', '':id'', ''('', ''/'', '':tab'', '')'']
   \<and> formatLoop literalExt ''/users/:id(/:tab)'' (oneParam ''id'' (PStr ''1''))
         [''/users/'', '':id'', ''('', ''/'', '':tab'', '')'']
         \<lparr>i = 4, parenCount = 1, pathname = ''/users/1'', splatIndex = 0,
           parenHistory = aset aempty 0 (Str ''/'')\<rparr>
       = formatLoop literalExt ''/users/:id(/:tab)'' (oneParam ''id'' (PStr ''1''))
           [''/users/'', '':id'', ''('', ''/'', '':tab'', '')'']
           (\<lparr>i = 4, parenCount = 1, pathname = ''/users/1'', splatIndex = 0,
              parenHistory = aset aempty 0 (Str ''/'')\<rparr>
            \<lparr>parenHistory :=
               aset (parenHistory \<lparr>i = 4, parenCount = 1, pathname = ''/users/1'', splatIndex = 0,
                                   parenHistory = aset aempty 0 (Str ''/'')\<rparr>)
                 (parenCount \<lparr>i = 4, parenCount = 1, pathname = ''/users/1'', splatIndex = 0,
                              parenHistory = aset aempty 0 (Str ''/'')\<rparr> - 1) (Str []),
             i := 5\<rparr>)"
proof -
  let ?toks = "[''/users/'', '':id'', ''('', ''/'', '':tab'', '')'']"
  let ?st = "\<lparr>i = 4, parenCount = 1, pathname = ''/users/1'', splatIndex = 0,
              parenHistory = aset aempty 0 (Str ''/'')\<rparr>"
  have lt: "i ?st < length ?toks" by simp
  have colon: "charAt (?toks ! i ?st) 0 = '':''" by (simp add: charAt_def)
  have absent: "oneParam ''id'' (PStr ''1'') (drop 1 (?toks ! i ?st)) = None"
    by (simp add: oneParam_def)
  have depth: "parenCount ?st > 0" by simp
  have first: "?toks ! i ?st \<notin> set (take (i ?st) ?toks)" by (simp add: take_Suc_conv_app_nth)
  have j: "i ?st < 5 \<and> 5 < length ?toks \<and> ?toks ! 5 = '')''
           \<and> (\<forall>k. i ?st < k \<and> k < 5 \<longrightarrow> ?toks ! k \<noteq> '')'')"
    by simp
  note T = formatLoop_elision [where ps = "oneParam ''id'' (PStr ''1'')" and ext = literalExt
             and pat = "''/users/:id(/:tab)''", OF lt colon absent depth first]
  show ?thesis
    by (intro conjI lt T [THEN conjunct1, rule_format, OF j])
qed

text \<open>
  C2 as stated does not hold when the elided group has a nested group after the
  parameter. With the tokens \<open>( :a ( b ) c )\<close> and no value for \<open>a\<close>, the body at token 1
  leaves \<open>i = 3\<close>, so the loop resumes at token 4, the \<open>)\<close> of the nested group; the
  close token that matches the group of \<open>:a\<close> is token 6. The text \<open>c\<close> of the elided
  group then reaches the output.
\<close>

theorem formatLoop_elision_counterexample:
  "map_sum (\<lambda>e. e) i
     (formatBody (stubExt (\<lambda>x. None) [] [''('', '':a'', ''('', ''b'', '')'', ''c'', '')''])
        ''(:a(b)c)'' (\<lambda>k. None) [''('', '':a'', ''('', ''b'', '')'', ''c'', '')'']
        \<lparr>i = 1, parenCount = 1, pathname = [], splatIndex = 0,
          parenHistory = aset aempty 0 (Str [])\<rparr>) = Inr 3
   \<and> findMatchingClose [''('', ''b'', '')'', ''c'', '')''] 0 2 = Some 6
   \<and> map_option fst
        (formatPattern (stubExt (\<lambda>x. None) [] [''('', '':a'', ''('', ''b'', '')'', ''c'', '')''])
           Map.empty ''(:a(b)c)'' None) = Some (Inr ''c'')"
  by (simp add: run_format)

section \<open>Properties of formatPattern\<close>

text \<open>
  C8 (as the code has it). When the scan of the tokens completes, \<open>formatPattern\<close> fails
  with the missing-end-paren error if the open-paren depth is greater than 0, and returns
  the collected path, runs of separators collapsed, otherwise: also when the depth is
  below 0.
\<close>

theorem formatPattern_end_paren:
  assumes "formatLoop ext pat (case params0 of None \<Rightarrow> readProp ext (\<lambda>k. None) | Some m \<Rightarrow> m)
             (tokens (fst (compilePattern ext c pat))) initial = Some (Inr st)"
  shows "map_option fst (formatPattern ext c pat params0) =
           Some (if parenCount st > 0 then Inl (MissingEndParen pat)
                 else Inr (collapseSlashes (pathname st)))"
  using assms
  by (cases "compilePattern ext c pat") (simp add: formatPattern_def Let_def)

theorem formatPattern_end_paren_witness:
  "formatLoop (stubExt (\<lambda>x. None) [] [''('', ''/a'']) ''(/a''
       (case None of None \<Rightarrow> readProp (stubExt (\<lambda>x. None) [] [''('', ''/a'']) (\<lambda>k. None) | Some m \<Rightarrow> m)
       (tokens (fst (compilePattern (stubExt (\<lambda>x. None) [] [''('', ''/a'']) Map.empty ''(/a'')))
       initial
     = Some (Inr \<lparr>i = 2, parenCount = 1, pathname = [], splatIndex = 0,
                  parenHistory = aset (aset aempty 0 (Str [])) 0 (Str ''/a'')\<rparr>)
   \<and> map_option fst (formatPattern (stubExt (\<lambda>x. None) [] [''('', ''/a'']) Map.empty ''(/a'' None) =
       Some (if parenCount \<lparr>i = 2, parenCount = 1, pathname = [], splatIndex = 0,
                  parenHistory = aset (aset aempty 0 (Str [])) 0 (Str ''/a'')\<rparr> > 0
             then Inl (MissingEndParen ''(/a'')
             else Inr (collapseSlashes (pathname \<lparr>i = 2, parenCount = 1, pathname = [], splatIndex = 0,
                  parenHistory = aset (aset aempty 0 (Str [])) 0 (Str ''/a'')\<rparr>)))"
proof -
  have h: "formatLoop (stubExt (\<lambda>x. None) [] [''('', ''/a'']) ''(/a''
       (case None of None \<Rightarrow> readProp (stubExt (\<lambda>x. None) [] [''('', ''/a'']) (\<lambda>k. None) | Some m \<Rightarrow> m)
       (tokens (fst (compilePattern (stubExt (\<lambda>x. None) [] [''('', ''/a'']) Map.empty ''(/a'')))
       initial
     = Some (Inr \<lparr>i = 2, parenCount = 1, pathname = [], splatIndex = 0,
                  parenHistory = aset (aset aempty 0 (Str [])) 0 (Str ''/a'')\<rparr>)"
    by (simp add: run_format)
  show ?thesis
    by (intro conjI h formatPattern_end_paren [OF h])
qed

text \<open>
  C8 as stated does not hold for a pattern with a \<open>)\<close> too many: on the single token
  \<open>)\<close> the scan ends at depth \<open>-1\<close>, the check \<open>parenCount <= 0\<close> passes and
  \<open>formatPattern\<close> returns the empty path.
\<close>

theorem formatPattern_end_paren_counterexample:
  "map_option (map_sum (\<lambda>e. e) parenCount)
     (formatLoop (stubExt (\<lambda>x. None) [] ['')'']) '')''
        (readProp (stubExt (\<lambda>x. None) [] ['')'']) (\<lambda>k. None)) ['')''] initial)
     = Some (Inr (- 1))
   \<and> map_option fst (formatPattern (stubExt (\<lambda>x. None) [] ['')'']) Map.empty '')'' None)
       = Some (Inr [])"
  by (simp add: run_format)

text \<open>
  C3. The splat branch appends to \<open>pathname\<close> at every depth. For the tokens
  \<open>( /files/ * )\<close> and \<open>splat = x\<close> the value is written to the output while the text
  of the group still waits in its buffer, and the result is \<open>x/files/\<close>; appended to the
  buffer of the group, as the named-param and the literal branch do, it would be
  \<open>/files/x\<close>.
\<close>

theorem formatPattern_splat_in_group:
  "map_option fst
     (formatPattern (stubExt (\<lambda>x. None) [] [''('', ''/files/'', ''*'', '')'']) Map.empty
        ''(/files/*)'' (Some (oneParam ''splat'' (PStr ''x''))))
   = Some (Inr ''x/files/'')"
  by (simp add: run_format)

section \<open>The loop need not end\<close>

text \<open>From a state of the cycle the body leads to a state of the cycle, so no run from
  there returns; \<open>formatPattern\<close> reaches the cycle on \<open>loopTokens\<close> without params.\<close>

lemma cycle_step:
  assumes "cycleState st" and absent: "ps ''a'' = None"
  shows "i st < length loopTokens
         \<and> (\<exists>st'. formatBody ext pat ps loopTokens st = Inr st'
                   \<and> cycleState (st'\<lparr>i := i st' + 1\<rparr>))"
proof -
  from assms consider
      (close) "pathname st = []" "i st = 2" "parenCount st = 1"
              "parenHistory st = aset aempty 0 (Str [])"
    | (opn) "pathname st = []" "i st = 3" "parenCount st = 0" "parenHistory st = aempty"
    | (name) "pathname st = []" "i st = 4" "parenCount st = 1"
              "parenHistory st = aset aempty 0 (Str [])"
    by (auto simp: cycleState_def)
  then show ?thesis
  proof cases
    case close
    have "(\<lambda>k::int. Undefined)(0 := Undefined) = (\<lambda>k. Undefined)" by auto
    with close show ?thesis
      by (simp add: cycleState_def loopTokens_def formatBody_def Let_def apop_def aset_def
            aempty_def)
  next
    case opn
    then show ?thesis
      by (simp add: cycleState_def loopTokens_def formatBody_def Let_def aset_def aempty_def)
  next
    case name
    with absent show ?thesis
      by (simp add: cycleState_def loopTokens_def formatBody_def Let_def aset_def aempty_def
            charAt_def escapedOpen_def escapedClose_def indexOf_def slice_def)
  qed
qed

lemma formatLoop_not_in_cycle:
  assumes "formatLoop ext pat ps toks st = Some y"
  shows "\<not> (ps ''a'' = None \<and> toks = loopTokens \<and> cycleState st)"
proof (rule formatLoop.raw_induct
    [where P = "\<lambda>ext pat ps toks st y. \<not> (ps ''a'' = None \<and> toks = loopTokens \<and> cycleState st)",
     OF _ assms])
  fix f :: "externals \<Rightarrow> string \<Rightarrow> params \<Rightarrow> string list \<Rightarrow> fstate \<Rightarrow> (error + fstate) option"
  fix ext pat ps toks st y
  assume IH: "\<And>e p q t s z. f e p q t s = Some z \<Longrightarrow>
                \<not> (q ''a'' = None \<and> t = loopTokens \<and> cycleState s)"
    and step: "(if i st < length toks
                then case formatBody ext pat ps toks st of
                       Inl e \<Rightarrow> Some (Inl e)
                     | Inr st' \<Rightarrow> f ext pat ps toks (st'\<lparr>i := i st' + 1\<rparr>)
                else Some (Inr st)) = Some y"
  show "\<not> (ps ''a'' = None \<and> toks = loopTokens \<and> cycleState st)"
  proof
    assume a: "ps ''a'' = None \<and> toks = loopTokens \<and> cycleState st"
    then obtain st' where lt: "i st < length toks"
      and body: "formatBody ext pat ps toks st = Inr st'"
      and next_in: "cycleState (st'\<lparr>i := i st' + 1\<rparr>)"
      using cycle_step [of st ps ext pat] by auto
    from step lt body have "f ext pat ps toks (st'\<lparr>i := i st' + 1\<rparr>) = Some y" by simp
    from IH [OF this] a next_in show False by simp
  qed
qed

lemma formatLoop_diverges:
  assumes "cycleState st" and "ps ''a'' = None"
  shows "formatLoop ext pat ps loopTokens st = None"
proof (cases "formatLoop ext pat ps loopTokens st")
  case None
  then show ?thesis .
next
  case (Some y)
  from formatLoop_not_in_cycle [OF Some] assms show ?thesis by simp
qed

lemma formatPattern_diverges:
  "formatPattern (stubExt (\<lambda>x. None) [] loopTokens) Map.empty ''(:a)(:a)'' None = None"
proof -
  let ?E = "stubExt (\<lambda>x. None) [] loopTokens"
  let ?ps = "readProp ?E (\<lambda>k. None)"
  let ?st2 = "\<lparr>i = 2, parenCount = 1, pathname = [], splatIndex = 0,
               parenHistory = aset aempty 0 (Str [])\<rparr>"
  have absent: "?ps ''a'' = None"
    by (simp add: readProp_def stubExt_def plainObject_def)
  have toks: "tokens (fst (compilePattern ?E Map.empty ''(:a)(:a)'')) = loopTokens"
    by (simp add: compilePattern_def priv_compilePattern_def stubExt_def comp_def Let_def)
  have s0: "formatLoop ?E ''(:a)(:a)'' ?ps loopTokens initial =
            formatLoop ?E ''(:a)(:a)'' ?ps loopTokens
              \<lparr>i = 1, parenCount = 1, pathname = [], splatIndex = 0,
                parenHistory = aset aempty 0 (Str [])\<rparr>"
    by (subst formatLoop.simps)
       (simp add: initial_def loopTokens_def formatBody_def Let_def)
  have s1: "formatLoop ?E ''(:a)(:a)'' ?ps loopTokens
              \<lparr>i = 1, parenCount = 1, pathname = [], splatIndex = 0,
                parenHistory = aset aempty 0 (Str [])\<rparr> =
            formatLoop ?E ''(:a)(:a)'' ?ps loopTokens ?st2"
    using absent
    by (subst formatLoop.simps)
       (simp add: loopTokens_def formatBody_def Let_def aset_def aempty_def
            charAt_def escapedOpen_def escapedClose_def indexOf_def slice_def numeral_2_eq_2)
  have "cycleState ?st2" by (simp add: cycleState_def)
  then have "formatLoop ?E ''(:a)(:a)'' ?ps loopTokens ?st2 = None"
    using absent by (rule formatLoop_diverges)
  then have "formatLoop ?E ''(:a)(:a)'' ?ps loopTokens initial = None"
    using s0 s1 by simp
  then show ?thesis
    using toks by (cases "compilePattern ?E Map.empty ''(:a)(:a)''") (simp add: formatPattern_def)
qed

section \<open>The loop on tokens without group boundaries\<close>

text \<open>At depth 0 and on a token that is not a group boundary, the loop body does what
  \<open>flatRun\<close> does on that token; so on a token sequence without group boundaries the
  loop, and with it \<open>formatPattern\<close>, computes what \<open>flatRun\<close> computes.\<close>

lemma formatBody_depth0:
  assumes "parenCount st = 0" and "\<not> groupToken (toks ! i st)"
  shows "formatBody ext pat ps toks st =
           (case flatRun ext pat ps [toks ! i st] (splatIndex st) (pathname st) of
              Inl e \<Rightarrow> Inl e
            | Inr (k, out) \<Rightarrow> Inr (st\<lparr>splatIndex := k, pathname := out\<rparr>))"
proof (cases "splatToken (toks ! i st)")
  case True
  then have "toks ! i st = ''*'' \<or> toks ! i st = ''**''" by (simp add: splatToken_def)
  from body_at_splat [OF this] True assms(1) show ?thesis
    by (simp add: Let_def split: prod.split option.split)
next
  case False
  note ns = False
  show ?thesis
  proof (cases "paramToken (toks ! i st)")
    case True
    then have colon: "charAt (toks ! i st) 0 = '':''" by (simp add: paramToken_def)
    show ?thesis
      unfolding formatBody_named_eq [OF colon]
      using assms(1) True ns colon_token [OF colon]
      by (simp add: Let_def split: option.split)
  next
    case False
    then show ?thesis
      using assms ns
      by (simp add: formatBody_def Let_def splatToken_def groupToken_def paramToken_def)
  qed
qed

lemma flatRun_Cons:
  "flatRun ext pat ps (t # ts) k out =
     (case flatRun ext pat ps [t] k out of
        Inl e \<Rightarrow> Inl e
      | Inr (k', out') \<Rightarrow> flatRun ext pat ps ts k' out')"
  by (simp split: prod.split option.split)

lemma formatLoop_flatRun:
  assumes "parenCount st = 0" and "i st \<le> length toks"
    and "\<forall>t \<in> set (drop (i st) toks). \<not> groupToken t"
  shows "formatLoop ext pat ps toks st =
           Some (case flatRun ext pat ps (drop (i st) toks) (splatIndex st) (pathname st) of
                   Inl e \<Rightarrow> Inl e
                 | Inr (k, out) \<Rightarrow>
                     Inr (st\<lparr>i := length toks, splatIndex := k, pathname := out\<rparr>))"
  using assms
proof (induction "length toks - i st" arbitrary: st)
  case 0
  then have "i st = length toks" by simp
  then show ?case by (subst formatLoop.simps) simp
next
  case (Suc n)
  then have lt: "i st < length toks" by simp
  have split: "drop (i st) toks = toks ! i st # drop (Suc (i st)) toks"
    using lt by (simp add: Cons_nth_drop_Suc)
  have here: "\<not> groupToken (toks ! i st)"
    using Suc.prems(3) split by auto
  note body = formatBody_depth0 [where ext = ext and pat = pat and ps = ps, OF Suc.prems(1) here]
  have whole: "flatRun ext pat ps (drop (i st) toks) (splatIndex st) (pathname st) =
     (case flatRun ext pat ps [toks ! i st] (splatIndex st) (pathname st) of
        Inl e \<Rightarrow> Inl e
      | Inr (k', out') \<Rightarrow> flatRun ext pat ps (drop (Suc (i st)) toks) k' out')"
    unfolding split by (rule flatRun_Cons)
  show ?case
  proof (cases "flatRun ext pat ps [toks ! i st] (splatIndex st) (pathname st)")
    case (Inl e)
    have "formatLoop ext pat ps toks st = Some (Inl e)"
      using lt by (subst formatLoop.simps) (simp add: body Inl del: flatRun.simps)
    then show ?thesis
      by (simp add: whole Inl del: flatRun.simps)
  next
    case (Inr r)
    obtain k out where r: "r = (k, out)" by (cases r)
    let ?st2 = "st\<lparr>splatIndex := k, pathname := out, i := i st + 1\<rparr>"
    have unfold: "formatLoop ext pat ps toks st = formatLoop ext pat ps toks ?st2"
      using lt by (subst formatLoop.simps) (simp add: body Inr r del: flatRun.simps)
    have rest: "\<forall>t \<in> set (drop (i ?st2) toks). \<not> groupToken t"
      using Suc.prems(3) split by simp
    have IH: "formatLoop ext pat ps toks ?st2 =
           Some (case flatRun ext pat ps (drop (i ?st2) toks) (splatIndex ?st2) (pathname ?st2) of
                   Inl e \<Rightarrow> Inl e
                 | Inr (k, out) \<Rightarrow>
                     Inr (?st2\<lparr>i := length toks, splatIndex := k, pathname := out\<rparr>))"
      using Suc.hyps(1) [of ?st2] Suc.hyps(2) Suc.prems(1) lt rest by simp
    show ?thesis
      unfolding unfold IH
      by (simp add: whole Inr r del: flatRun.simps split: sum.split prod.split)
  qed
qed

lemma formatPattern_flatRun:
  assumes "\<forall>t \<in> set (tokens (fst (compilePattern ext c pat))). \<not> groupToken t"
  shows "map_option fst (formatPattern ext c pat params0) =
           Some (case flatRun ext pat (case params0 of None \<Rightarrow> readProp ext (\<lambda>k. None) | Some m \<Rightarrow> m)
                        (tokens (fst (compilePattern ext c pat))) 0 [] of
                   Inl e \<Rightarrow> Inl e
                 | Inr (k, out) \<Rightarrow> Inr (collapseSlashes out))"
proof -
  obtain cp c' where cp: "compilePattern ext c pat = (cp, c')" by (cases "compilePattern ext c pat")
  define ps where "ps = (case params0 of None \<Rightarrow> readProp ext (\<lambda>k. None) | Some m \<Rightarrow> m)"
  have loop: "formatLoop ext pat ps (tokens cp) initial =
           Some (case flatRun ext pat ps
                        (drop (i initial) (tokens cp)) (splatIndex initial) (pathname initial) of
                   Inl e \<Rightarrow> Inl e
                 | Inr (k, out) \<Rightarrow>
                     Inr (initial\<lparr>i := length (tokens cp), splatIndex := k, pathname := out\<rparr>))"
    by (rule formatLoop_flatRun) (use assms cp in \<open>simp_all add: initial_def\<close>)
  have i0: "drop (i initial) (tokens cp) = tokens cp" "splatIndex initial = 0"
    "pathname initial = []" "parenCount initial = 0"
    by (simp_all add: initial_def)
  show ?thesis
  proof (cases "flatRun ext pat ps (tokens cp) 0 []")
    case (Inl e)
    then show ?thesis
      using loop by (simp add: formatPattern_def cp ps_def [symmetric] i0 Let_def)
  next
    case (Inr r)
    obtain k out where r: "r = (k, out)" by (cases r)
    show ?thesis
      using loop Inr r by (simp add: formatPattern_def cp ps_def [symmetric] i0 Let_def)
  qed
qed

section \<open>Facts about every run of the loop\<close>






lemma formatBody_MissingParameter:
  assumes "formatBody ext pat ps toks st = Inl (MissingParameter m p)"
  shows "ps m = None"
proof (cases "charAt (toks ! i st) 0 = '':''")
  case True
  show ?thesis
    using assms unfolding formatBody_named_eq [OF True]
    by (auto simp: Let_def split: if_splits option.splits)
next
  case False
  then show ?thesis
    using assms
    by (auto simp: formatBody_def Let_def split: if_splits prod.splits option.splits)
qed

lemma formatLoop_MissingParameter:
  assumes "formatLoop ext pat ps toks st = Some (Inl (MissingParameter m p))"
  shows "ps m = None"
proof -
  have "formatLoop ext pat ps toks st = Some y \<Longrightarrow> y = Inl (MissingParameter m p) \<longrightarrow> ps m = None" for y
  proof (rule formatLoop.raw_induct
      [where P = "\<lambda>ext pat ps toks st y. y = Inl (MissingParameter m p) \<longrightarrow> ps m = None"])
    fix f :: "externals \<Rightarrow> string \<Rightarrow> params \<Rightarrow> string list \<Rightarrow> fstate \<Rightarrow> (error + fstate) option"
    fix ext pat ps toks st y
    assume IH: "\<And>e q r t s z. f e q r t s = Some z \<Longrightarrow>
                  z = Inl (MissingParameter m p) \<longrightarrow> r m = None"
      and step: "(if i st < length toks
                  then case formatBody ext pat ps toks st of
                         Inl e \<Rightarrow> Some (Inl e)
                       | Inr st' \<Rightarrow> f ext pat ps toks (st'\<lparr>i := i st' + 1\<rparr>)
                  else Some (Inr st)) = Some y"
    show "y = Inl (MissingParameter m p) \<longrightarrow> ps m = None"
    proof
      assume y: "y = Inl (MissingParameter m p)"
      show "ps m = None"
      proof (cases "i st < length toks")
        case False
        with step y show ?thesis by simp
      next
        case True
        show ?thesis
        proof (cases "formatBody ext pat ps toks st")
          case (Inl e)
          with step True y have "formatBody ext pat ps toks st = Inl (MissingParameter m p)"
            by simp
          then show ?thesis by (rule formatBody_MissingParameter)
        next
          case (Inr st')
          with step True have "f ext pat ps toks (st'\<lparr>i := i st' + 1\<rparr>) = Some y" by simp
          from IH [OF this] y show ?thesis by simp
        qed
      qed
    qed
  qed
  with assms show ?thesis by simp
qed

section \<open>Splat values\<close>


lemma plainText_simps:
  assumes "plainText t"
  shows "\<not> splatToken t" "\<not> paramToken t" "\<not> keyToken t" "\<not> groupToken t"
    "t \<noteq> escapedOpen" "t \<noteq> escapedClose"
  using assms by (auto simp: plainText_def keyToken_def)











section \<open>A parameter whose value is the empty string\<close>

lemma formatPattern_Inl:
  assumes "map_option fst (formatPattern ext c pat params0) = Some (Inl e)"
  shows "formatLoop ext pat (case params0 of None \<Rightarrow> readProp ext (\<lambda>k. None) | Some m \<Rightarrow> m)
           (tokens (fst (compilePattern ext c pat))) initial = Some (Inl e)
         \<or> e = MissingEndParen pat"
  using assms
  by (cases "compilePattern ext c pat")
     (auto simp: formatPattern_def Let_def split: option.splits sum.splits if_splits)

lemma never_missing:
  assumes toks: "toks = tokens (fst (compilePattern ext c pat))"
    and ps: "ps = (case params0 of None \<Rightarrow> readProp ext (\<lambda>k. None) | Some m \<Rightarrow> m)"
    and present: "ps name \<noteq> None"
  shows "map_option fst (formatPattern ext c pat params0) \<noteq> Some (Inl (MissingParameter name p))"
proof
  assume "map_option fst (formatPattern ext c pat params0) = Some (Inl (MissingParameter name p))"
  from formatPattern_Inl [OF this]
  have "formatLoop ext pat ps toks initial = Some (Inl (MissingParameter name p))"
    by (simp add: toks ps)
  from formatLoop_MissingParameter [OF this] present show False by simp
qed

lemma formatLoop_at_value:
  assumes lt: "i st < length toks" and tok: "toks ! i st = '':'' @ name"
    and v: "ps name = Some v"
  shows "formatLoop ext pat ps toks st =
           formatLoop ext pat ps toks
             (if parenCount st = 0
              then st\<lparr>pathname := pathname st @ encodeURIComponent ext (pvalString v),
                      i := i st + 1\<rparr>
              else st\<lparr>parenHistory :=
                        aset (parenHistory st) (parenCount st - 1)
                          (jsplus (aget (parenHistory st) (parenCount st - 1))
                             (Str (encodeURIComponent ext (pvalString v)))),
                      i := i st + 1\<rparr>)"
proof -
  have colon: "charAt (toks ! i st) 0 = '':''" by (simp add: tok charAt_def)
  have body: "formatBody ext pat ps toks st =
      (if parenCount st \<noteq> 0 then
         Inr (st\<lparr>parenHistory :=
                   aset (parenHistory st) (parenCount st - 1)
                     (jsplus (aget (parenHistory st) (parenCount st - 1))
                        (Str (encodeURIComponent ext (pvalString v))))\<rparr>)
       else Inr (st\<lparr>pathname := pathname st @ encodeURIComponent ext (pvalString v)\<rparr>))"
    unfolding formatBody_named_eq [OF colon] using v by (simp add: Let_def tok)
  show ?thesis
    using lt by (subst formatLoop.simps) (simp add: body)
qed

lemma flatRun_empty_values:
  assumes "encodeURIComponent ext [] = []"
    and "\<forall>t \<in> set ts. plainText t \<or> (paramToken t \<and> ps (drop 1 t) = Some (PStr []))"
  shows "flatRun ext pat ps ts k out = Inr (k, out @ concat (filter plainText ts))"
  using assms(2)
proof (induction ts arbitrary: out)
  case Nil
  then show ?case by simp
next
  case (Cons t ts)
  then have IH: "\<And>out. flatRun ext pat ps ts k out = Inr (k, out @ concat (filter plainText ts))"
    by simp
  show ?case
  proof (cases "plainText t")
    case True
    then show ?thesis
      using plainText_simps [OF True] IH by simp
  next
    case False
    with Cons.prems have p: "paramToken t" and v: "ps (drop 1 t) = Some (PStr [])" by auto
    from p have colon: "charAt t 0 = '':''" by (simp add: paramToken_def)
    show ?thesis
      using False p v colon_token [OF colon] IH assms(1) by (simp add: splatToken_def)
  qed
qed

text \<open>
  C10. In \<open>formatPattern\<close>, a named parameter supplied as the empty string counts as
  present. For every pattern and params map that maps \<open>name\<close> to \<open>''\<close>:
  \<^item> \<open>formatPattern\<close> never fails with the missing-parameter error for \<open>name\<close>;
  \<^item> wherever the scan stands at the token \<open>:name\<close>, at any depth, it goes on at the next
    token with the escaped empty string appended to the current buffer (the output at
    depth 0, the buffer of the group otherwise): no buffer is cleared and no token is
    skipped, so no optional group is elided;
  \<^item> when escaping the empty string gives the empty string, as \<open>encodeURIComponent\<close>
    does, and the tokens are text and named parameters that are all mapped to \<open>''\<close>,
    \<open>formatPattern\<close> returns the text tokens alone (runs of separators collapsed): the
    empty values contribute no text.
\<close>

theorem formatPattern_empty_value:
  assumes toks: "toks = tokens (fst (compilePattern ext c pat))"
    and ps: "ps = (case params0 of None \<Rightarrow> readProp ext (\<lambda>k. None) | Some m \<Rightarrow> m)"
    and empty: "ps name = Some (PStr [])"
  shows
   "(\<forall>p. map_option fst (formatPattern ext c pat params0) \<noteq> Some (Inl (MissingParameter name p)))
    \<and> (\<forall>st. i st < length toks \<and> toks ! i st = '':'' @ name \<longrightarrow>
         formatLoop ext pat ps toks st =
           formatLoop ext pat ps toks
             (if parenCount st = 0
              then st\<lparr>pathname := pathname st @ encodeURIComponent ext [], i := i st + 1\<rparr>
              else st\<lparr>parenHistory :=
                        aset (parenHistory st) (parenCount st - 1)
                          (jsplus (aget (parenHistory st) (parenCount st - 1))
                             (Str (encodeURIComponent ext []))),
                      i := i st + 1\<rparr>))
    \<and> (encodeURIComponent ext [] = []
        \<and> (\<forall>t \<in> set toks. plainText t \<or> (paramToken t \<and> ps (drop 1 t) = Some (PStr []))) \<longrightarrow>
         map_option fst (formatPattern ext c pat params0) =
           Some (Inr (collapseSlashes (concat (filter plainText toks)))))"
proof (intro conjI allI impI)
  fix p
  from empty have "ps name \<noteq> None" by simp
  from never_missing [OF toks ps this]
  show "map_option fst (formatPattern ext c pat params0) \<noteq> Some (Inl (MissingParameter name p))" .
next
  fix st :: fstate
  assume h: "i st < length toks \<and> toks ! i st = '':'' @ name"
  then have lt: "i st < length toks" and tok: "toks ! i st = '':'' @ name" by simp_all
  from formatLoop_at_value [where ps = ps and ext = ext and pat = pat and v = "PStr []"
      and name = name and st = st and toks = toks, OF lt tok empty]
  show "formatLoop ext pat ps toks st =
           formatLoop ext pat ps toks
             (if parenCount st = 0
              then st\<lparr>pathname := pathname st @ encodeURIComponent ext [], i := i st + 1\<rparr>
              else st\<lparr>parenHistory :=
                        aset (parenHistory st) (parenCount st - 1)
                          (jsplus (aget (parenHistory st) (parenCount st - 1))
                             (Str (encodeURIComponent ext []))),
                      i := i st + 1\<rparr>)"
    by simp
next
  assume h: "encodeURIComponent ext [] = []
        \<and> (\<forall>t \<in> set toks. plainText t \<or> (paramToken t \<and> ps (drop 1 t) = Some (PStr [])))"
  then have enc: "encodeURIComponent ext [] = []"
    and all: "\<forall>t \<in> set toks. plainText t \<or> (paramToken t \<and> ps (drop 1 t) = Some (PStr []))"
    by simp_all
  have ng: "\<forall>t \<in> set toks. \<not> groupToken t"
  proof
    fix t assume "t \<in> set toks"
    with all have "plainText t \<or> paramToken t" by blast
    then show "\<not> groupToken t"
      using plainText_simps(4) [of t]
      by (auto simp: paramToken_def groupToken_def charAt_def)
  qed
  have fr: "flatRun ext pat ps toks 0 [] = Inr (0, [] @ concat (filter plainText toks))"
    by (rule flatRun_empty_values [where ps = ps, OF enc all])
  have "map_option fst (formatPattern ext c pat params0) =
           Some (case flatRun ext pat ps toks 0 [] of
                   Inl e \<Rightarrow> Inl e
                 | Inr (k, out) \<Rightarrow> Inr (collapseSlashes out))"
    unfolding toks ps by (rule formatPattern_flatRun) (use ng toks in simp)
  then show "map_option fst (formatPattern ext c pat params0) =
           Some (Inr (collapseSlashes (concat (filter plainText toks))))"
    unfolding fr by simp
qed


theorem formatPattern_empty_value_witness:
  "map_option fst
     (formatPattern (stubExt (\<lambda>x. None) [] [''/users/'', '':id'', ''/'', '':tab'']) Map.empty
        ''/users/:id/:tab'' (Some ((oneParam ''id'' (PStr []))(''tab'' \<mapsto> PStr []))))
     \<noteq> Some (Inl (MissingParameter ''id'' ''/users/:id/:tab''))
   \<and> formatLoop (stubExt (\<lambda>x. None) [] [''/users/'', '':id'', ''/'', '':tab''])
         ''/users/:id/:tab'' ((oneParam ''id'' (PStr []))(''tab'' \<mapsto> PStr []))
         [''/users/'', '':id'', ''/'', '':tab'']
         \<lparr>i = 1, parenCount = 1, pathname = ''/users/'', splatIndex = 0,
           parenHistory = aset aempty 0 (Str ''x'')\<rparr>
       = formatLoop (stubExt (\<lambda>x. None) [] [''/users/'', '':id'', ''/'', '':tab''])
           ''/users/:id/:tab'' ((oneParam ''id'' (PStr []))(''tab'' \<mapsto> PStr []))
           [''/users/'', '':id'', ''/'', '':tab'']
           (if parenCount \<lparr>i = 1, parenCount = 1, pathname = ''/users/'', splatIndex = 0,
                            parenHistory = aset aempty 0 (Str ''x'')\<rparr> = 0
            then \<lparr>i = 1, parenCount = 1, pathname = ''/users/'', splatIndex = 0,
                   parenHistory = aset aempty 0 (Str ''x'')\<rparr>
                 \<lparr>pathname :=
                    pathname \<lparr>i = 1, parenCount = 1, pathname = ''/users/'', splatIndex = 0,
                               parenHistory = aset aempty 0 (Str ''x'')\<rparr>
                    @ encodeURIComponent
                        (stubExt (\<lambda>x. None) [] [''/users/'', '':id'', ''/'', '':tab'']) [],
                  i := i \<lparr>i = 1, parenCount = 1, pathname = ''/users/'', splatIndex = 0,
                           parenHistory = aset aempty 0 (Str ''x'')\<rparr> + 1\<rparr>
            else \<lparr>i = 1, parenCount = 1, pathname = ''/users/'', splatIndex = 0,
                   parenHistory = aset aempty 0 (Str ''x'')\<rparr>
                 \<lparr>parenHistory :=
                    aset (parenHistory \<lparr>i = 1, parenCount = 1, pathname = ''/users/'',
                                        splatIndex = 0,
                                        parenHistory = aset aempty 0 (Str ''x'')\<rparr>)
                      (parenCount \<lparr>i = 1, parenCount = 1, pathname = ''/users/'',
                                   splatIndex = 0,
                                   parenHistory = aset aempty 0 (Str ''x'')\<rparr> - 1)
                      (jsplus
                         (aget (parenHistory \<lparr>i = 1, parenCount = 1, pathname = ''/users/'',
                                              splatIndex = 0,
                                              parenHistory = aset aempty 0 (Str ''x'')\<rparr>)
                            (parenCount \<lparr>i = 1, parenCount = 1, pathname = ''/users/'',
                                         splatIndex = 0,
                                         parenHistory = aset aempty 0 (Str ''x'')\<rparr> - 1))
                         (Str (encodeURIComponent
                                 (stubExt (\<lambda>x. None) [] [''/users/'', '':id'', ''/'', '':tab''])
                                 []))),
                  i := i \<lparr>i = 1, parenCount = 1, pathname = ''/users/'', splatIndex = 0,
                           parenHistory = aset aempty 0 (Str ''x'')\<rparr> + 1\<rparr>)
   \<and> map_option fst
       (formatPattern (stubExt (\<lambda>x. None) [] [''/users/'', '':id'', ''/'', '':tab'']) Map.empty
          ''/users/:id/:tab'' (Some ((oneParam ''id'' (PStr []))(''tab'' \<mapsto> PStr []))))
       = Some (Inr (collapseSlashes
                 (concat (filter plainText [''/users/'', '':id'', ''/'', '':tab'']))))
   \<and> collapseSlashes (concat (filter plainText [''/users/'', '':id'', ''/'', '':tab'']))
       = ''/users/''"
proof -
  let ?toks = "[''/users/'', '':id'', ''/'', '':tab'']"
  let ?E = "stubExt (\<lambda>x. None) [] ?toks"
  let ?pat = "''/users/:id/:tab''"
  let ?ps = "(oneParam ''id'' (PStr []))(''tab'' \<mapsto> PStr [])"
  let ?st = "\<lparr>i = 1, parenCount = 1, pathname = ''/users/'', splatIndex = 0,
               parenHistory = aset aempty 0 (Str ''x'')\<rparr>"
  have toks: "?toks = tokens (fst (compilePattern ?E Map.empty ?pat))"
    by (simp add: compilePattern_def priv_compilePattern_def stubExt_def Let_def comp_def)
  have ps: "?ps = (case Some ?ps of None \<Rightarrow> readProp ?E (\<lambda>k. None) | Some m \<Rightarrow> m)" by simp
  have empty: "?ps ''id'' = Some (PStr [])" by (simp add: oneParam_def)
  note T = formatPattern_empty_value [OF toks ps empty]
  have at: "i ?st < length ?toks \<and> ?toks ! i ?st = '':'' @ ''id''" by simp
  have kinds: "filter plainText ?toks = [''/users/'', ''/'']"
    by (simp add: plainText_def keyToken_def splatToken_def paramToken_def groupToken_def
          charAt_def escapedOpen_def escapedClose_def)
  have all: "encodeURIComponent ?E [] = []
        \<and> (\<forall>t \<in> set ?toks. plainText t \<or> (paramToken t \<and> ?ps (drop 1 t) = Some (PStr [])))"
    by (simp add: stubExt_def oneParam_def plainText_def keyToken_def splatToken_def
          paramToken_def groupToken_def charAt_def escapedOpen_def escapedClose_def)
  have out: "collapseSlashes (concat (filter plainText ?toks)) = ''/users/''"
    unfolding kinds by simp
  show ?thesis
    by (intro conjI
          T [THEN conjunct1, rule_format]
          T [THEN conjunct2, THEN conjunct1, rule_format, OF at]
          T [THEN conjunct2, THEN conjunct2, rule_format, OF all]
          out)
qed

section \<open>The round trip\<close>













lemma keyToken_kinds:
  "\<not> keyToken escapedOpen" "\<not> keyToken escapedClose"
  "\<not> splatToken escapedOpen" "\<not> splatToken escapedClose"
  "\<not> paramToken escapedOpen" "\<not> paramToken escapedClose"
  by (simp_all add: keyToken_def splatToken_def paramToken_def escapedOpen_def escapedClose_def
        charAt_def)

lemma splat_not_param: "splatToken t \<Longrightarrow> \<not> paramToken t" "splatToken t \<Longrightarrow> t \<noteq> escapedOpen"
  "splatToken t \<Longrightarrow> t \<noteq> escapedClose"
  by (auto simp: splatToken_def paramToken_def charAt_def escapedOpen_def escapedClose_def)









end
